theory Spec2Isabelle
  imports Main "HOL-Library.Sublist"
begin

section \<open>Values, errors and callables\<close>

text \<open>
  The Python values that flow through a trace.  Arrays and tensors are data for the code
  modelled here, so a small universe of data values stands for them; \<open>PObject\<close> is any
  other object, held by reference and never inspected.
\<close>

datatype pyval = PNone | PInt int | PStr string | PTuple "pyval list" | PObject

text \<open>Every \<open>raise\<close>, failed \<open>assert\<close> and failing builtin of the source is a value.\<close>

datatype error =
    ValueError string
  | KeyError string
  | IndexError
  | TypeError
  | AttributeError
  | AssertionError string
  | OverflowError
  | Raised string

text \<open>
  A callable may be impure (a simulator draws random numbers), so it reads and updates a
  world \<open>'w\<close>, and it may raise.  What a callable returns is data, or a distribution
  instance with its two methods \<open>sample()\<close> and \<open>log_prob(value)\<close>.
\<close>

datatype 'w pyobj =
    Data pyval
  | Instance (sample_m: "'w \<Rightarrow> (error + pyval) \<times> 'w")
             (log_prob_m: "pyval \<Rightarrow> 'w \<Rightarrow> (error + pyval) \<times> 'w")

type_synonym 'w pyfn =
  "pyval list \<Rightarrow> (string \<times> pyval) list \<Rightarrow> 'w \<Rightarrow> (error + 'w pyobj) \<times> 'w"

text \<open>
  The output names of a node, as \<open>Trace._sample\<close> builds them: a \<open>str\<close> or a \<open>list\<close>
  of \<open>str\<close>.
\<close>

datatype names = Name string | Names "string list"

section \<open>Trace\<close>

text \<open>
  \<open>class Trace(dict)\<close>: the dictionary's items in insertion order, and the three
  attributes \<open>_targets\<close>, \<open>_prefix\<close> and \<open>_eval_log_probs\<close>.
\<close>

record trace =
  tr_items :: "(string \<times> pyval) list"
  tr_targets :: "string list option"
  tr_prefix :: string
  tr_eval_log_probs :: bool

definition Trace_init :: "string list option \<Rightarrow> (string \<times> pyval) list \<Rightarrow> bool \<Rightarrow> trace" where
  "Trace_init targets conditions log_prob =
     \<lparr>tr_items = conditions, tr_targets = targets, tr_prefix = [],
      tr_eval_log_probs = log_prob\<rparr>"

definition keys :: "trace \<Rightarrow> string list" where
  "keys t = map fst (tr_items t)"

definition Trace_setitem :: "trace \<Rightarrow> string \<Rightarrow> pyval \<Rightarrow> trace" where
  "Trace_setitem t k v =
     (if k \<notin> set (keys t) then t\<lparr>tr_items := tr_items t @ [(k, v)]\<rparr> else t)"

text \<open>
  \<open>Trace\<close> overrides \<open>__setitem__\<close> only, and has every other method of \<open>dict\<close> as it
  is.  The methods of \<open>dict\<close> work on the dictionary itself and do not call an overridden
  \<open>__setitem__\<close>: \<open>update\<close> (and \<open>|=\<close>) sets each given item, replacing the value of a
  key that is there, and \<open>del\<close> removes a key.
\<close>

definition dict_setitem :: "(string \<times> pyval) list \<Rightarrow> string \<Rightarrow> pyval \<Rightarrow> (string \<times> pyval) list" where
  "dict_setitem its k v =
     (if k \<in> set (map fst its)
      then map (\<lambda>(k', v'). if k' = k then (k', v) else (k', v')) its
      else its @ [(k, v)])"

definition Trace_update :: "trace \<Rightarrow> (string \<times> pyval) list \<Rightarrow> trace" where
  "Trace_update t other =
     t\<lparr>tr_items := foldl (\<lambda>its (k, v). dict_setitem its k v) (tr_items t) other\<rparr>"

definition Trace_delitem :: "trace \<Rightarrow> string \<Rightarrow> error + trace" where
  "Trace_delitem t k =
     (if k \<in> set (keys t)
      then Inr (t\<lparr>tr_items := filter (\<lambda>(k', v'). k' \<noteq> k) (tr_items t)\<rparr>)
      else Inl (KeyError k))"

definition Trace_getitem :: "trace \<Rightarrow> string \<Rightarrow> error + pyval" where
  "Trace_getitem t k =
     (case map_of (tr_items t) k of None \<Rightarrow> Inl (KeyError k) | Some v \<Rightarrow> Inr v)"

definition covers_targets :: "trace \<Rightarrow> bool" where
  "covers_targets t =
     (case tr_targets t of
        None \<Rightarrow> False
      | Some ts \<Rightarrow> list_all (\<lambda>k. k \<in> set (keys t)) ts)"

section \<open>LazyValue\<close>

text \<open>
  A \<open>LazyValue\<close> holds \<open>_this_name\<close>, \<open>_fn_out_names\<close>, \<open>_fn\<close>, \<open>_dist\<close>, \<open>_args\<close> and
  \<open>_kwargs\<close>; an argument is a plain value or another \<open>LazyValue\<close>.  Its \<open>_trace\<close> is
  the trace of the state it is evaluated in: all nodes of one graph share one trace.
\<close>

datatype 'w arg = Value pyval | Lazy "'w LazyValue"
and 'w LazyValue =
  LazyValue (this_name: string) (fn_out_names: names) (fn: "'w pyfn") (dist: bool)
            (args: "'w arg list") (kwargs: "(string \<times> 'w arg) list")

text \<open>
  The state an evaluation runs in: the trace, the world of the callables, and a log with
  one entry (the node's \<open>_this_name\<close>) for every invocation \<open>self._fn(...)\<close>.
\<close>

record 'w state =
  trace :: trace
  world :: "'w"
  calls :: "string list"

text \<open>\<open>zip(names, result)\<close> iterates \<open>result\<close>; a non-iterable raises \<open>TypeError\<close>.\<close>

fun py_iter :: "pyval \<Rightarrow> error + pyval list" where
  "py_iter (PTuple vs) = Inr vs"
| "py_iter (PStr s) = Inr (map (\<lambda>c. PStr [c]) s)"
| "py_iter v = Inl TypeError"

text \<open>The value of an object as the trace stores it.\<close>

fun stored :: "'w pyobj \<Rightarrow> pyval" where
  "stored (Data v) = v"
| "stored (Instance smp lp) = PObject"

fun setitems :: "trace \<Rightarrow> (string \<times> pyval) list \<Rightarrow> trace" where
  "setitems t [] = t"
| "setitems t ((k, v) # kvs) = setitems (Trace_setitem t k v) kvs"

text \<open>
  \<open>self._trace[out_name] = value\<close> for the one name, or for each pair of
  \<open>zip(self._fn_out_names, result)\<close>.
\<close>

definition store_result :: "names \<Rightarrow> pyval \<Rightarrow> trace \<Rightarrow> error + trace" where
  "store_result out_names result t =
     (case out_names of
        Names ns \<Rightarrow>
          (case py_iter result of
             Inl e \<Rightarrow> Inl e
           | Inr vs \<Rightarrow> Inr (setitems t (zip ns vs)))
      | Name n \<Rightarrow> Inr (Trace_setitem t n result))"

text \<open>
  The first branch of \<open>evaluate\<close> after the call: \<open>result\<close> is what \<open>fn\<close> returned, or
  (for a distribution node) \<open>instance.sample()\<close>; it is written to the trace.  The
  instance is returned for the log-probability branch (\<open>None\<close> when there is none).
\<close>

definition populate ::
  "names \<Rightarrow> bool \<Rightarrow> 'w pyobj \<Rightarrow> 'w state \<Rightarrow> (error + 'w pyobj option) \<times> 'w state" where
  "populate out_names d obj s =
     (let r =
        (if \<not> d then (Inr (stored obj, None), s)
         else
           (case obj of
              Data v \<Rightarrow> (Inl AttributeError, s)
            | Instance smp lp \<Rightarrow>
                (case smp (world s) of
                   (Inl e, w) \<Rightarrow> (Inl e, s\<lparr>world := w\<rparr>)
                 | (Inr v, w) \<Rightarrow> (Inr (v, Some obj), s\<lparr>world := w\<rparr>))))
      in
        (case r of
           (Inl e, s1) \<Rightarrow> (Inl e, s1)
         | (Inr (result, instance), s1) \<Rightarrow>
             (case store_result out_names result (trace s1) of
                Inl e \<Rightarrow> (Inl e, s1)
              | Inr t \<Rightarrow> (Inr instance, s1\<lparr>trace := t\<rparr>))))"

text \<open>
  \<open>result = instance.log_prob(self._trace[self._this_name])\<close>, then
  \<open>self._trace[self._this_name + ":log_prob"] = result\<close>.  The method is looked up
  before its argument is evaluated.
\<close>

definition record_log_prob ::
  "string \<Rightarrow> 'w pyobj \<Rightarrow> 'w state \<Rightarrow> (error + unit) \<times> 'w state" where
  "record_log_prob name obj s =
     (case obj of
        Data x \<Rightarrow> (Inl AttributeError, s)
      | Instance smp lp \<Rightarrow>
          (case Trace_getitem (trace s) name of
             Inl e \<Rightarrow> (Inl e, s)
           | Inr v \<Rightarrow>
               (case lp v (world s) of
                  (Inl e, w) \<Rightarrow> (Inl e, s\<lparr>world := w\<rparr>)
                | (Inr result, w) \<Rightarrow>
                    (Inr (),
                     s\<lparr>world := w,
                       trace := Trace_setitem (trace s) (name @ '':log_prob'') result\<rparr>))))"

text \<open>
  \<open>LazyValue.evaluate\<close>.  \<open>call_fn\<close> is the text the source has twice: evaluate the
  arguments, then \<open>self._fn(*args, **kwargs)\<close>.  The keyword arguments are a dict
  comprehension, evaluated where it stands; the positional arguments are a generator,
  consumed by the call: lazy keyword arguments are evaluated before lazy positional ones.
\<close>

function (sequential)
  evaluate :: "'w LazyValue \<Rightarrow> 'w state \<Rightarrow> (error + pyval) \<times> 'w state"
  and eval_args :: "'w arg list \<Rightarrow> 'w state \<Rightarrow> (error + pyval list) \<times> 'w state"
  and eval_kwargs ::
    "(string \<times> 'w arg) list \<Rightarrow> 'w state \<Rightarrow> (error + (string \<times> pyval) list) \<times> 'w state"
  and call_fn :: "'w LazyValue \<Rightarrow> 'w state \<Rightarrow> (error + 'w pyobj) \<times> 'w state"
where
  "evaluate (LazyValue name out_names f d as kws) s =
     (let r1 =
        (if name \<notin> set (keys (trace s)) then
           (case call_fn (LazyValue name out_names f d as kws) s of
              (Inl e, s1) \<Rightarrow> (Inl e, s1)
            | (Inr obj, s1) \<Rightarrow> populate out_names d obj s1)
         else (Inr None, s))
      in
        (case r1 of
           (Inl e, s2) \<Rightarrow> (Inl e, s2)
         | (Inr instance, s2) \<Rightarrow>
             (let r2 =
                (if tr_eval_log_probs (trace s2) \<and> name \<noteq> [] \<and> d then
                   (case (case instance of
                            None \<Rightarrow> call_fn (LazyValue name out_names f d as kws) s2
                          | Some obj \<Rightarrow> (Inr obj, s2)) of
                      (Inl e, s3) \<Rightarrow> (Inl e, s3)
                    | (Inr obj, s3) \<Rightarrow> record_log_prob name obj s3)
                 else (Inr (), s2))
              in
                (case r2 of
                   (Inl e, s4) \<Rightarrow> (Inl e, s4)
                 | (Inr u, s4) \<Rightarrow> (Trace_getitem (trace s4) name, s4)))))"
| "call_fn (LazyValue name out_names f d as kws) s =
     (case eval_kwargs kws s of
        (Inl e, s1) \<Rightarrow> (Inl e, s1)
      | (Inr kwvals, s1) \<Rightarrow>
          (case eval_args as s1 of
             (Inl e, s2) \<Rightarrow> (Inl e, s2)
           | (Inr argvals, s2) \<Rightarrow>
               (case f argvals kwvals (world s2) of
                  (r, w) \<Rightarrow> (r, s2\<lparr>world := w, calls := calls s2 @ [name]\<rparr>))))"
| "eval_args [] s = (Inr [], s)"
| "eval_args (Value v # as) s =
     (case eval_args as s of
        (Inl e, s1) \<Rightarrow> (Inl e, s1)
      | (Inr vs, s1) \<Rightarrow> (Inr (v # vs), s1))"
| "eval_args (Lazy lv # as) s =
     (case evaluate lv s of
        (Inl e, s1) \<Rightarrow> (Inl e, s1)
      | (Inr v, s1) \<Rightarrow>
          (case eval_args as s1 of
             (Inl e, s2) \<Rightarrow> (Inl e, s2)
           | (Inr vs, s2) \<Rightarrow> (Inr (v # vs), s2)))"
| "eval_kwargs [] s = (Inr [], s)"
| "eval_kwargs ((k, Value v) # kws) s =
     (case eval_kwargs kws s of
        (Inl e, s1) \<Rightarrow> (Inl e, s1)
      | (Inr kvs, s1) \<Rightarrow> (Inr ((k, v) # kvs), s1))"
| "eval_kwargs ((k, Lazy lv) # kws) s =
     (case evaluate lv s of
        (Inl e, s1) \<Rightarrow> (Inl e, s1)
      | (Inr v, s1) \<Rightarrow>
          (case eval_kwargs kws s1 of
             (Inl e, s2) \<Rightarrow> (Inl e, s2)
           | (Inr kvs, s2) \<Rightarrow> (Inr ((k, v) # kvs), s2)))"
  by pat_completeness auto
termination
  by (relation "measure (\<lambda>x. case x of
        Inl (Inl (lv, s)) \<Rightarrow> 2 * size lv + 1
      | Inl (Inr (as, s)) \<Rightarrow> 2 * size_list size as
      | Inr (Inl (kws, s)) \<Rightarrow> 2 * size_list (size_prod (\<lambda>x. 0) size) kws
      | Inr (Inr (lv, s)) \<Rightarrow> 2 * size lv)") auto

section \<open>Registering nodes\<close>

text \<open>
  The \<open>names\<close> argument of \<open>sample\<close>: a \<open>str\<close>, a \<open>list\<close>, or anything else.  What
  \<open>_sample\<close> returns: one \<open>LazyValue\<close>, or a tuple of them.  A source name with a leading
  underscore is written with a leading \<open>u_\<close>.
\<close>

datatype pynames = IsStr string | IsList "string list" | IsOther

datatype 'w sampled = One "'w LazyValue" | Tuple "'w LazyValue list"

definition u_sample ::
  "pynames \<Rightarrow> 'w pyfn \<Rightarrow> bool \<Rightarrow> 'w arg list \<Rightarrow> (string \<times> 'w arg) list \<Rightarrow> 'w state
     \<Rightarrow> (error + 'w sampled) \<times> 'w state" where
  "u_sample names f d as kws s =
     (case names of
        IsList ns \<Rightarrow>
          (let names' = map (\<lambda>n. tr_prefix (trace s) @ n) ns;
               lazy_values = map (\<lambda>k. LazyValue k (Names names') f d as kws) names'
           in
             if (case tr_targets (trace s) of
                   None \<Rightarrow> True
                 | Some ts \<Rightarrow> list_ex (\<lambda>k. k \<in> set ts) names')
             then
               (case lazy_values of
                  [] \<Rightarrow> (Inl IndexError, s)
                | lv # rest \<Rightarrow>
                    (case evaluate lv s of
                       (Inl e, s1) \<Rightarrow> (Inl e, s1)
                     | (Inr v, s1) \<Rightarrow> (Inr (Tuple lazy_values), s1)))
             else (Inr (Tuple lazy_values), s))
      | IsStr n \<Rightarrow>
          (let name = tr_prefix (trace s) @ n;
               lazy_value = LazyValue name (Name name) f d as kws
           in
             if (case tr_targets (trace s) of
                   None \<Rightarrow> True
                 | Some ts \<Rightarrow> name \<in> set ts)
             then
               (case evaluate lazy_value s of
                  (Inl e, s1) \<Rightarrow> (Inl e, s1)
                | (Inr v, s1) \<Rightarrow> (Inr (One lazy_value), s1))
             else (Inr (One lazy_value), s))
      | IsOther \<Rightarrow> (Inl (ValueError []), s))"

text \<open>\<open>sample\<close> asserts that \<open>fn\<close> is callable, which a \<open>pyfn\<close> is.\<close>

definition sample ::
  "pynames \<Rightarrow> 'w pyfn \<Rightarrow> 'w arg list \<Rightarrow> (string \<times> 'w arg) list \<Rightarrow> 'w state
     \<Rightarrow> (error + 'w sampled) \<times> 'w state" where
  "sample names f as kws s = u_sample names f False as kws s"

definition sample_dist ::
  "pynames \<Rightarrow> 'w pyfn \<Rightarrow> 'w arg list \<Rightarrow> (string \<times> 'w arg) list \<Rightarrow> 'w state
     \<Rightarrow> (error + 'w sampled) \<times> 'w state" where
  "sample_dist names f as kws s = u_sample names f True as kws s"

section \<open>TracePrefixContextManager\<close>

text \<open>
  The manager's own \<open>_prefix\<close>; its \<open>_trace\<close> is the trace of the state.  \<open>__enter__\<close>
  swaps: the manager keeps the trace's prefix, the trace gets the manager's prefix in
  front of its own.  \<open>__exit__\<close> writes the kept prefix back and returns \<open>None\<close>, so an
  exception of the body propagates.
\<close>

record TracePrefixContextManager =
  cm_prefix :: string

definition Trace_prefix :: "string \<Rightarrow> TracePrefixContextManager" where
  "Trace_prefix p = \<lparr>cm_prefix = p\<rparr>"

definition cm_enter ::
  "TracePrefixContextManager \<Rightarrow> 'w state \<Rightarrow> TracePrefixContextManager \<times> 'w state" where
  "cm_enter cm s =
     (cm\<lparr>cm_prefix := tr_prefix (trace s)\<rparr>,
      s\<lparr>trace := (trace s)\<lparr>tr_prefix := cm_prefix cm @ tr_prefix (trace s)\<rparr>\<rparr>)"

definition cm_exit :: "TracePrefixContextManager \<Rightarrow> 'w state \<Rightarrow> 'w state" where
  "cm_exit cm s = s\<lparr>trace := (trace s)\<lparr>tr_prefix := cm_prefix cm\<rparr>\<rparr>"

text \<open>
  \<open>with trace.prefix(p): body\<close>.  The body is any code run on the state; it ends with a
  value or with an exception, and \<open>__exit__\<close> runs in both cases.
\<close>

definition with_prefix ::
  "string \<Rightarrow> ('w state \<Rightarrow> (error + 'a) \<times> 'w state) \<Rightarrow> 'w state \<Rightarrow> (error + 'a) \<times> 'w state"
  where
  "with_prefix p body s =
     (case cm_enter (Trace_prefix p) s of
        (cm, s1) \<Rightarrow> (case body s1 of (r, s2) \<Rightarrow> (r, cm_exit cm s2)))"

section \<open>Simulator\<close>

text \<open>
  A simulator is its three overridable methods.  \<open>forward\<close> is user code run on the trace;
  the two hooks default to the identity.  \<open>conditions\<close> is a dict, or a callable returning
  one.
\<close>

record 'w Simulator =
  on_before_forward ::
    "(string \<times> pyval) list \<Rightarrow> 'w \<Rightarrow> (error + (string \<times> pyval) list) \<times> 'w"
  forward :: "'w state \<Rightarrow> (error + unit) \<times> 'w state"
  on_after_forward ::
    "(string \<times> pyval) list \<Rightarrow> 'w \<Rightarrow> (error + (string \<times> pyval) list) \<times> 'w"

definition default_hook ::
  "(string \<times> pyval) list \<Rightarrow> 'w \<Rightarrow> (error + (string \<times> pyval) list) \<times> 'w" where
  "default_hook smp w = (Inr smp, w)"

definition Simulator_default :: "('w state \<Rightarrow> (error + unit) \<times> 'w state) \<Rightarrow> 'w Simulator" where
  "Simulator_default fwd =
     \<lparr>on_before_forward = default_hook, forward = fwd, on_after_forward = default_hook\<rparr>"

datatype 'w conditions =
    Dict "(string \<times> pyval) list"
  | Callable "'w \<Rightarrow> (error + (string \<times> pyval) list) \<times> 'w"

definition u_run ::
  "'w Simulator \<Rightarrow> string list option \<Rightarrow> 'w conditions \<Rightarrow> bool \<Rightarrow> 'w
     \<Rightarrow> (error + (string \<times> pyval) list) \<times> 'w" where
  "u_run sim targets conditions log_prob w =
     (case (case conditions of Callable c \<Rightarrow> c w | Dict d \<Rightarrow> (Inr d, w)) of
        (Inl e, w1) \<Rightarrow> (Inl e, w1)
      | (Inr conds, w1) \<Rightarrow>
          (case on_before_forward sim conds w1 of
             (Inl e, w2) \<Rightarrow> (Inl e, w2)
           | (Inr conds', w2) \<Rightarrow>
               (let s0 = \<lparr>trace = Trace_init targets conds' log_prob, world = w2, calls = []\<rparr>
                in
                  (case (if \<not> covers_targets (trace s0) then forward sim s0
                         else (Inr (), s0)) of
                     (Inl e, s1) \<Rightarrow> (Inl e, world s1)
                   | (Inr u, s1) \<Rightarrow>
                       if targets \<noteq> None \<and> \<not> covers_targets (trace s1)
                       then (Inl (ValueError ''Missing simulation targets.''), world s1)
                       else on_after_forward sim (tr_items (trace s1)) (world s1)))))"

section \<open>get_index_slices\<close>

text \<open>
  \<open>np.array(idx)\<close> is an array of int64 (for indices in that range, as \<open>np.arange\<close>
  gives them), and its arithmetic wraps around.  The mask of one round: position \<open>i\<close> is
  selected when \<open>residual_idx[i] - residual_idx[0] - i == 0\<close>.
\<close>

definition wrap64 :: "int \<Rightarrow> int" where
  "wrap64 z = (z + 2 ^ 63) mod 2 ^ 64 - 2 ^ 63"

definition run_mask :: "int list \<Rightarrow> bool list" where
  "run_mask residual_idx =
     (case residual_idx of
        [] \<Rightarrow> []
      | r0 # rs \<Rightarrow>
          map (\<lambda>(x, i). wrap64 (wrap64 (x - r0) - int i) = 0)
            (zip residual_idx [0..<length residual_idx]))"

definition select :: "'a list \<Rightarrow> bool list \<Rightarrow> 'a list" where
  "select xs msk = map fst (filter snd (zip xs msk))"

lemma select_run_mask_shorter:
  "length (select (r0 # rs) (map Not (run_mask (r0 # rs)))) < length (r0 # rs)"
proof -
  have up: "[0..<Suc (length rs)] = 0 # [Suc 0..<Suc (length rs)]"
    by (rule upt_conv_Cons) simp
  have "length (filter snd (zip rs ms)) \<le> length rs" for ms :: "bool list"
    by (rule order_trans [OF length_filter_le]) simp
  then show ?thesis
    by (simp add: select_def run_mask_def wrap64_def up del: upt_Suc)
       (simp add: le_imp_less_Suc)
qed

text \<open>
  The loop: \<open>pointer\<close>, \<open>residual_idx\<close> and \<open>slices\<close> are its variables.  Indexing the
  selection with \<open>[0]\<close> and \<open>[-1]\<close> raises \<open>IndexError\<close> on an empty selection.
\<close>

function get_index_slices_loop ::
  "int \<Rightarrow> int list \<Rightarrow> int list list list \<Rightarrow> error + int list list list" where
  "get_index_slices_loop pointer residual_idx slices =
     (if length residual_idx > 0 then
        (let msk = run_mask residual_idx in
           (case select residual_idx msk of
              [] \<Rightarrow> Inl IndexError
            | x # xs \<Rightarrow>
                (let slc1 = [x, wrap64 (last (x # xs) + 1)];
                     slc2 = [pointer, pointer + int (length (filter id msk))]
                 in
                   get_index_slices_loop
                     (pointer + int (length (filter id msk)))
                     (select residual_idx (map Not msk))
                     (slices @ [[slc2, slc1]]))))
      else Inr slices)"
  by pat_completeness auto
termination
proof (relation "measure (\<lambda>(pointer, residual_idx, slices). length residual_idx)")
  show "wf (measure (\<lambda>(pointer, residual_idx, slices). length residual_idx))"
    by simp
next
  fix pointer :: int and residual_idx :: "int list" and slices :: "int list list list"
    and msk x xs slc1 slc2
  assume "0 < length residual_idx" and "msk = run_mask residual_idx"
  then obtain r0 rs where "residual_idx = r0 # rs"
    by (cases residual_idx) auto
  with \<open>msk = run_mask residual_idx\<close>
  show "((pointer + int (length (filter id msk)), select residual_idx (map Not msk),
          slices @ [[slc2, slc1]]),
         pointer, residual_idx, slices)
        \<in> measure (\<lambda>(pointer, residual_idx, slices). length residual_idx)"
    using select_run_mask_shorter [of r0 rs] by simp
qed

definition get_index_slices :: "int list \<Rightarrow> error + int list list list" where
  "get_index_slices idx = get_index_slices_loop 0 idx []"

section \<open>ZarrStore\<close>

text \<open>
  A zarr array as the store uses it: its shape, its chunk shape and its dtype.  A dtype
  is written by its canonical numpy name (\<open>float64\<close> for \<open>'f8'\<close>, \<open>int32\<close> for \<open>'i4'\<close>), so
  that equal names are equal dtypes, as in the comparison of the code.  What an array
  holds, and which chunks the library keeps when it is resized, is the library's and is
  not modelled: the code modelled here reads and compares shapes, chunk shapes and dtypes
  only.  \<open>resize\<close> wants as many dimensions as the array has, and takes them as they are.
\<close>

record zarray =
  shape :: "int list"
  chunks :: "int list"
  dtype :: string

definition zeros :: "int list \<Rightarrow> int list \<Rightarrow> string \<Rightarrow> zarray" where
  "zeros shp chk dt = \<lparr>shape = shp, chunks = chk, dtype = dt\<rparr>"

definition resize :: "zarray \<Rightarrow> int list \<Rightarrow> error + zarray" where
  "resize a shp =
     (if length shp \<noteq> length (shape a)
      then Inl (ValueError ''new shape must have same number of dimensions'')
      else Inr (a\<lparr>shape := shp\<rparr>))"

text \<open>
  \<open>len(array)\<close> is the first dimension; an array without dimensions has no length, and
  the builtin \<open>len\<close> refuses a negative length and one above \<open>sys.maxsize\<close>.
\<close>

definition maxsize :: int where
  "maxsize = 2 ^ 63 - 1"

definition len_array :: "zarray \<Rightarrow> error + int" where
  "len_array a =
     (case shape a of
        [] \<Rightarrow> Inl TypeError
      | n # rest \<Rightarrow>
          if n < 0 then Inl (ValueError ''__len__() should return >= 0'')
          else if n > maxsize then Inl OverflowError
          else Inr n)"

text \<open>
  The root group of the store: the group \<open>data\<close> with its arrays (absent until the first
  array is created in it), the array \<open>meta/sim_status\<close>, and the attribute \<open>chunk_size\<close>
  of the group \<open>data\<close>.
\<close>

record ZarrStore =
  data :: "(string \<times> zarray) list option"
  sim_status :: "zarray option"
  attr_chunk_size :: "int option"

definition ZarrStore_new :: ZarrStore where
  "ZarrStore_new = \<lparr>data = None, sim_status = None, attr_chunk_size = None\<rparr>"

fun lens :: "zarray list \<Rightarrow> error + int list" where
  "lens [] = Inr []"
| "lens (a # as) =
     (case len_array a of
        Inl e \<Rightarrow> Inl e
      | Inr n \<Rightarrow> (case lens as of Inl e \<Rightarrow> Inl e | Inr ns \<Rightarrow> Inr (n # ns)))"

text \<open>\<open>__len__\<close>: \<open>ns[0]\<close> raises on a group without arrays, and the \<open>assert\<close> can fail.\<close>

definition len :: "ZarrStore \<Rightarrow> error + int" where
  "len st =
     (case data st of
        None \<Rightarrow> Inr 0
      | Some d \<Rightarrow>
          (case lens (map snd d) of
             Inl e \<Rightarrow> Inl e
           | Inr [] \<Rightarrow> Inl IndexError
           | Inr (N # ns) \<Rightarrow>
               if list_all (\<lambda>n. n = N) (N # ns) then Inr N else Inl (AssertionError [])))"

text \<open>
  \<open>set_length\<close>.  The store is returned with the result: an exception leaves it as it
  was when the exception was raised.  The loop over \<open>self.data.keys()\<close> resizes one array
  after the other, each to \<open>(N, *shape[1:])\<close>.
\<close>

definition shrink_message :: string where
  "shrink_message =
     ''New length shorter than current store length.\<newline>                You can use clubber = True if you know what your are doing.''"

fun resize_all :: "(string \<times> zarray) list \<Rightarrow> int \<Rightarrow> (error + unit) \<times> (string \<times> zarray) list" where
  "resize_all [] N = (Inr (), [])"
| "resize_all ((k, a) # rest) N =
     (case resize a (N # tl (shape a)) of
        Inl e \<Rightarrow> (Inl e, (k, a) # rest)
      | Inr a' \<Rightarrow> (case resize_all rest N of (r, rest') \<Rightarrow> (r, (k, a') # rest')))"

definition set_length :: "ZarrStore \<Rightarrow> int \<Rightarrow> bool \<Rightarrow> (error + unit) \<times> ZarrStore" where
  "set_length st N clubber =
     (case len st of
        Inl e \<Rightarrow> (Inl e, st)
      | Inr n \<Rightarrow>
          if N < n \<and> \<not> clubber
          then (Inl (ValueError shrink_message), st)
          else
            (case data st of
               None \<Rightarrow> (Inl (KeyError ''data''), st)
             | Some d \<Rightarrow>
                 (case resize_all d N of
                    (Inl e, d') \<Rightarrow> (Inl e, st\<lparr>data := Some d'\<rparr>)
                  | (Inr u, d') \<Rightarrow>
                      (let st1 = st\<lparr>data := Some d'\<rparr> in
                         (case sim_status st1 of
                            None \<Rightarrow> (Inl (KeyError ''meta/sim_status''), st1)
                          | Some a \<Rightarrow>
                              (case resize a [N] of
                                 Inl e \<Rightarrow> (Inl e, st1)
                               | Inr a' \<Rightarrow> (Inr (), st1\<lparr>sim_status := Some a'\<rparr>)))))))"

text \<open>
  One round of the loop of \<open>_init_shapes\<close>: create \<open>data/k\<close>, or, when the array is
  there (\<open>ContainsArrayError\<close>), check it with the three assertions.  \<open>N\<close>, the chunk size
  and the shapes given to \<open>init\<close> are array dimensions, so they are natural numbers.
\<close>

definition init_array ::
  "ZarrStore \<Rightarrow> string \<Rightarrow> nat list \<Rightarrow> string \<Rightarrow> nat \<Rightarrow> nat \<Rightarrow> error + ZarrStore" where
  "init_array st k s dt N chunk_size =
     (let d = (case data st of None \<Rightarrow> [] | Some d \<Rightarrow> d) in
        (case map_of d k of
           None \<Rightarrow>
             Inr (st\<lparr>data :=
                    Some (d @ [(k, zeros (int N # map int s) (int chunk_size # map int s) dt)])\<rparr>)
         | Some a \<Rightarrow>
             if shape a \<noteq> int N # map int s
             then Inl (AssertionError ''Inconsistent array sizes'')
             else if chunks a \<noteq> int chunk_size # map int s
             then Inl (AssertionError ''Inconsistent chunk sizes'')
             else if dtype a \<noteq> dt then Inl (AssertionError ''Inconsistent dtype'')
             else Inr st))"

fun init_arrays ::
  "ZarrStore \<Rightarrow> (string \<times> nat list) list \<Rightarrow> (string \<times> string) list option \<Rightarrow> nat \<Rightarrow> nat
     \<Rightarrow> (error + unit) \<times> ZarrStore" where
  "init_arrays st [] dtypes N chunk_size = (Inr (), st)"
| "init_arrays st ((k, s) # rest) dtypes N chunk_size =
     (case dtypes of
        None \<Rightarrow> (Inl TypeError, st)
      | Some dts \<Rightarrow>
          (case map_of dts k of
             None \<Rightarrow> (Inl (KeyError k), st)
           | Some dt \<Rightarrow>
               (case init_array st k s dt N chunk_size of
                  Inl e \<Rightarrow> (Inl e, st)
                | Inr st1 \<Rightarrow> init_arrays st1 rest dtypes N chunk_size)))"

text \<open>
  \<open>_init_shapes\<close>: the arrays, then \<open>meta/sim_status\<close>, then the chunk size, which is
  compared when the attribute is there and recorded when reading it raises \<open>KeyError\<close>
  (recording raises \<open>KeyError\<close> again when there is no group \<open>data\<close>).
\<close>

definition u_init_shapes ::
  "ZarrStore \<Rightarrow> (string \<times> nat list) list option \<Rightarrow> (string \<times> string) list option \<Rightarrow> nat \<Rightarrow> nat
     \<Rightarrow> (error + unit) \<times> ZarrStore" where
  "u_init_shapes st shapes dtypes N chunk_size =
     (case shapes of
        None \<Rightarrow> (Inl AttributeError, st)
      | Some shps \<Rightarrow>
          (case init_arrays st shps dtypes N chunk_size of
             (Inl e, st1) \<Rightarrow> (Inl e, st1)
           | (Inr u, st1) \<Rightarrow>
               (case (case sim_status st1 of
                        None \<Rightarrow>
                          Inr (st1\<lparr>sim_status :=
                                 Some (zeros [int N] [int chunk_size] ''int32'')\<rparr>)
                      | Some a \<Rightarrow>
                          if shape a \<noteq> [int N]
                          then Inl (AssertionError ''Inconsistent array sizes'')
                          else Inr st1) of
                  Inl e \<Rightarrow> (Inl e, st1)
                | Inr st2 \<Rightarrow>
                    (case data st2 of
                       None \<Rightarrow> (Inl (KeyError ''data''), st2)
                     | Some d \<Rightarrow>
                         (case attr_chunk_size st2 of
                            None \<Rightarrow> (Inr (), st2\<lparr>attr_chunk_size := Some (int chunk_size)\<rparr>)
                          | Some c \<Rightarrow>
                              if c \<noteq> int chunk_size
                              then (Inl (AssertionError ''Inconsistent chunk size''), st2)
                              else (Inr (), st2))))))"

text \<open>
  \<open>init\<close>: a store that has rows prints a warning and returns; otherwise
  \<open>_init_shapes\<close> runs.
\<close>

definition init ::
  "ZarrStore \<Rightarrow> nat \<Rightarrow> nat \<Rightarrow> (string \<times> nat list) list option \<Rightarrow> (string \<times> string) list option
     \<Rightarrow> (error + unit) \<times> ZarrStore" where
  "init st N chunk_size shapes dtypes =
     (case len st of
        Inl e \<Rightarrow> (Inl e, st)
      | Inr n \<Rightarrow>
          if n > 0 then (Inr (), st)
          else u_init_shapes st shapes dtypes N chunk_size)"

section \<open>Example inputs\<close>

text \<open>
  Inputs for the concrete runs below: a callable that returns a given object and leaves
  the world alone, a distribution instance whose \<open>sample()\<close> and \<open>log_prob(value)\<close> return
  given values, a fresh state \<open>Trace(targets, conditions, log_prob)\<close> with no world,
  a \<open>forward\<close> that registers nothing, a distribution node \<open>x\<close> and a plain node \<open>y\<close>
  without arguments, and the store left by
  \<open>init(2, 1, {"x": (3,)}, {"x": "f8"})\<close> on a new store.
\<close>

definition returns :: "'w pyobj \<Rightarrow> 'w pyfn" where
  "returns obj argvals kwvals w = (Inr obj, w)"

definition point_dist :: "pyval \<Rightarrow> pyval \<Rightarrow> 'w pyobj" where
  "point_dist v l = Instance (\<lambda>w. (Inr v, w)) (\<lambda>x w. (Inr l, w))"

definition state0 :: "string list option \<Rightarrow> (string \<times> pyval) list \<Rightarrow> bool \<Rightarrow> unit state" where
  "state0 targets conditions log_prob =
     \<lparr>trace = Trace_init targets conditions log_prob, world = (), calls = []\<rparr>"

definition no_forward :: "'w state \<Rightarrow> (error + unit) \<times> 'w state" where
  "no_forward s = (Inr (), s)"

definition node_x :: "unit LazyValue" where
  "node_x = LazyValue ''x'' (Name ''x'') (returns (point_dist (PInt 1) (PInt 0))) True [] []"

definition node_y :: "unit LazyValue" where
  "node_y = LazyValue ''y'' (Name ''y'') (returns (Data (PInt 7))) False [] []"

definition store_x :: ZarrStore where
  "store_x =
     snd (init ZarrStore_new 2 1 (Some [(''x'', [3])]) (Some [(''x'', ''float64'')]))"

section \<open>What an evaluation may change\<close>

text \<open>
  \<open>grows s s'\<close>: the items of the trace of \<open>s\<close> are still there in \<open>s'\<close>, at the same
  positions and with the same values, followed by what was added; the attributes of the
  trace are the same; the log of invocations was only extended.
\<close>

definition grows :: "'w state \<Rightarrow> 'w state \<Rightarrow> bool" where
  "grows s s' =
     (prefix (tr_items (trace s)) (tr_items (trace s')) \<and>
      tr_targets (trace s') = tr_targets (trace s) \<and>
      tr_prefix (trace s') = tr_prefix (trace s) \<and>
      tr_eval_log_probs (trace s') = tr_eval_log_probs (trace s) \<and>
      prefix (calls s) (calls s'))"

lemma grows_refl: "grows s s"
  by (simp add: grows_def)

lemma grows_trans: "grows s s1 \<Longrightarrow> grows s1 s2 \<Longrightarrow> grows s s2"
  by (auto simp: grows_def)

lemma Trace_setitem_frame:
  "prefix (tr_items t) (tr_items (Trace_setitem t k v))"
  "tr_targets (Trace_setitem t k v) = tr_targets t"
  "tr_prefix (Trace_setitem t k v) = tr_prefix t"
  "tr_eval_log_probs (Trace_setitem t k v) = tr_eval_log_probs t"
  by (simp_all add: Trace_setitem_def)

lemma setitems_frame:
  "prefix (tr_items t) (tr_items (setitems t kvs)) \<and>
   tr_targets (setitems t kvs) = tr_targets t \<and>
   tr_prefix (setitems t kvs) = tr_prefix t \<and>
   tr_eval_log_probs (setitems t kvs) = tr_eval_log_probs t"
proof (induction kvs arbitrary: t)
  case Nil
  show ?case by simp
next
  case (Cons kv kvs)
  obtain k v where kv: "kv = (k, v)" by (cases kv)
  from Cons [of "Trace_setitem t k v"] Trace_setitem_frame [of t k v]
  show ?case by (auto simp: kv intro: prefix_order.trans)
qed

lemma store_result_frame:
  assumes "store_result out_names result t = Inr t'"
  shows "prefix (tr_items t) (tr_items t') \<and> tr_targets t' = tr_targets t \<and>
         tr_prefix t' = tr_prefix t \<and> tr_eval_log_probs t' = tr_eval_log_probs t"
  using assms setitems_frame Trace_setitem_frame
  by (auto simp: store_result_def split: names.splits sum.splits)

lemma grows_world: "trace s1 = trace s \<Longrightarrow> calls s1 = calls s \<Longrightarrow> grows s s1"
  by (simp add: grows_def)

lemma grows_store:
  "store_result out_names result (trace s) = Inr t \<Longrightarrow> grows s (s\<lparr>trace := t\<rparr>)"
  using store_result_frame [of out_names result "trace s" t] by (simp add: grows_def)

lemma populate_grows: "grows s (snd (populate out_names d obj s))"
proof -
  let ?r = "(if \<not> d then (Inr (stored obj, None), s)
         else
           (case obj of
              Data v \<Rightarrow> (Inl AttributeError, s)
            | Instance smp lp \<Rightarrow>
                (case smp (world s) of
                   (Inl e, w) \<Rightarrow> (Inl e, s\<lparr>world := w\<rparr>)
                 | (Inr v, w) \<Rightarrow> (Inr (v, Some obj), s\<lparr>world := w\<rparr>))))"
  obtain r s1 where r: "?r = (r, s1)" by (cases ?r)
  then have "trace s1 = trace s \<and> calls s1 = calls s"
    by (auto split: if_splits pyobj.splits prod.splits sum.splits)
  then have g: "grows s s1" by (simp add: grows_world)
  have p: "populate out_names d obj s =
      (case (r, s1) of
           (Inl e, s1) \<Rightarrow> (Inl e, s1)
         | (Inr (result, inst), s1) \<Rightarrow>
             (case store_result out_names result (trace s1) of
                Inl e \<Rightarrow> (Inl e, s1)
              | Inr t \<Rightarrow> (Inr inst, s1\<lparr>trace := t\<rparr>)))"
    unfolding populate_def Let_def r ..
  show ?thesis
  proof (cases r)
    case (Inl e)
    with p g show ?thesis by simp
  next
    case (Inr ri)
    obtain result inst where ri: "ri = (result, inst)" by (cases ri)
    show ?thesis
    proof (cases "store_result out_names result (trace s1)")
      case (Inl e)
      with p g Inr ri show ?thesis by simp
    next
      case t: (Inr t)
      from grows_store [OF t] g have "grows s (s1\<lparr>trace := t\<rparr>)" by (rule grows_trans [rotated])
      with p Inr ri t show ?thesis by simp
    qed
  qed
qed

lemma record_log_prob_grows: "grows s (snd (record_log_prob name obj s))"
proof (cases obj)
  case (Data x)
  then show ?thesis by (simp add: record_log_prob_def grows_refl)
next
  case (Instance smp lp)
  show ?thesis
  proof (cases "Trace_getitem (trace s) name")
    case (Inl e)
    with Instance show ?thesis by (simp add: record_log_prob_def grows_refl)
  next
    case (Inr v)
    obtain r w where l: "lp v (world s) = (r, w)" by (cases "lp v (world s)")
    show ?thesis
    proof (cases r)
      case (Inl e)
      with Inr Instance l show ?thesis by (simp add: record_log_prob_def grows_world)
    next
      case r: (Inr result)
      with Inr Instance l show ?thesis
        using Trace_setitem_frame [of "trace s" "name @ '':log_prob''" result]
        by (simp add: record_log_prob_def grows_def)
    qed
  qed
qed

lemma evaluate_grows:
  "grows s (snd (evaluate lv s))"
  "grows s (snd (eval_args as s))"
  "grows s (snd (eval_kwargs kws s))"
  "grows s (snd (call_fn lv' s))"
proof (induction lv s and as s and kws s and lv' s rule: evaluate_eval_args_eval_kwargs_call_fn.induct)
  case (1 name out_names f d as kws s)
  let ?lv = "LazyValue name out_names f d as kws"
  let ?r1 = "(if name \<notin> set (keys (trace s))
        then case call_fn ?lv s of
             (Inl e, s1) \<Rightarrow> (Inl e, s1)
             | (Inr obj, s1) \<Rightarrow> populate out_names d obj s1
        else (Inr None, s))"
  have g1: "grows s (snd ?r1)"
  proof (cases "name \<in> set (keys (trace s))")
    case True
    then show ?thesis by (simp add: grows_refl)
  next
    case False
    from "1.IH"(1) [OF False] have c: "grows s (snd (call_fn ?lv s))" .
    show ?thesis
    proof (cases "call_fn ?lv s")
      case (Pair r s1)
      with c have "grows s s1" by simp
      then show ?thesis
        using False Pair populate_grows [of s1 out_names d]
        by (auto split: sum.splits intro: grows_trans)
    qed
  qed
  obtain r s2 where r1: "?r1 = (r, s2)" by (cases ?r1)
  with g1 have g2: "grows s s2" by simp
  show ?case
  proof (cases r)
    case (Inl e)
    with r1 g2 show ?thesis by (simp del: call_fn.simps)
  next
    case (Inr inst)
    let ?r2 = "(if tr_eval_log_probs (trace s2) \<and> name \<noteq> [] \<and> d then
                   (case (case inst of
                            None \<Rightarrow> call_fn ?lv s2
                          | Some obj \<Rightarrow> (Inr obj, s2)) of
                      (Inl e, s3) \<Rightarrow> (Inl e, s3)
                    | (Inr obj, s3) \<Rightarrow> record_log_prob name obj s3)
                 else (Inr (), s2))"
    have g3: "grows s2 (snd ?r2)"
    proof (cases "tr_eval_log_probs (trace s2) \<and> name \<noteq> [] \<and> d")
      case False
      then show ?thesis by (auto simp: grows_refl)
    next
      case True
      show ?thesis
      proof (cases inst)
        case None
        from "1.IH"(2) [OF refl r1 [symmetric] Inr True None]
        have c: "grows s2 (snd (call_fn ?lv s2))" .
        obtain r' s3 where p: "call_fn ?lv s2 = (r', s3)" by (cases "call_fn ?lv s2")
        with c have "grows s2 s3" by simp
        then show ?thesis
          using True None p record_log_prob_grows [of s3 name]
          by (auto simp del: call_fn.simps split: sum.splits intro: grows_trans)
      next
        case (Some obj)
        then show ?thesis
          using True record_log_prob_grows [of s2 name obj] by simp
      qed
    qed
    obtain u s4 where r2: "?r2 = (u, s4)" by (cases ?r2)
    with g3 have "grows s2 s4" by simp
    with g2 have "grows s s4" by (rule grows_trans)
    then show ?thesis
      using r1 Inr r2 by (simp del: call_fn.simps split: sum.splits)
  qed
next
  case (2 name out_names f d as kws s)
  from "2.IH"(1) have k: "grows s (snd (eval_kwargs kws s))" .
  obtain r s1 where p: "eval_kwargs kws s = (r, s1)" by (cases "eval_kwargs kws s")
  show ?case
  proof (cases r)
    case (Inl e)
    with p k show ?thesis by simp
  next
    case (Inr kwvals)
    from "2.IH"(2) [OF p [symmetric] Inr] have a: "grows s1 (snd (eval_args as s1))" .
    obtain r' s2 where q: "eval_args as s1 = (r', s2)" by (cases "eval_args as s1")
    from k p have "grows s s1" by simp
    moreover from a q have "grows s1 s2" by simp
    ultimately have g: "grows s s2" by (rule grows_trans)
    then have "grows s (s2\<lparr>world := w, calls := calls s2 @ [name]\<rparr>)" for w
      by (auto simp: grows_def intro: prefix_order.trans)
    with g show ?thesis
      using p Inr q by (auto split: sum.splits prod.splits)
  qed
next
  case (3 s)
  show ?case by (simp add: grows_refl)
next
  case (4 v as s)
  then show ?case by (auto split: prod.splits sum.splits)
next
  case (5 lv as s)
  obtain r s1 where p: "evaluate lv s = (r, s1)" by (cases "evaluate lv s")
  with "5.IH"(1) have g: "grows s s1" by simp
  show ?case
  proof (cases r)
    case (Inl e)
    with p g show ?thesis by simp
  next
    case (Inr v)
    from "5.IH"(2) [OF p [symmetric] Inr] g
    have "grows s (snd (eval_args as s1))" by (auto intro: grows_trans)
    then show ?thesis using p Inr by (auto split: prod.splits sum.splits)
  qed
next
  case (6 s)
  show ?case by (simp add: grows_refl)
next
  case (7 k v kws s)
  then show ?case by (auto split: prod.splits sum.splits)
next
  case (8 k lv kws s)
  obtain r s1 where p: "evaluate lv s = (r, s1)" by (cases "evaluate lv s")
  with "8.IH"(1) have g: "grows s s1" by simp
  show ?case
  proof (cases r)
    case (Inl e)
    with p g show ?thesis by simp
  next
    case (Inr v)
    from "8.IH"(2) [OF p [symmetric] Inr] g
    have "grows s (snd (eval_kwargs kws s1))" by (auto intro: grows_trans)
    then show ?thesis using p Inr by (auto split: prod.splits sum.splits)
  qed
qed

text \<open>A successful \<open>evaluate\<close> returns what the trace holds under \<open>this_name\<close>.\<close>

lemma evaluate_Inr_key:
  assumes "evaluate lv s = (Inr v, s')"
  shows "Trace_getitem (trace s') (this_name lv) = Inr v"
proof -
  obtain name out_names f d as kws where lv: "lv = LazyValue name out_names f d as kws"
    by (cases lv)
  from assms show ?thesis
    unfolding lv
    by (auto simp add: Let_def simp del: call_fn.simps split: prod.splits sum.splits if_splits)
qed

lemma getitem_key: "Trace_getitem t k = Inr v \<Longrightarrow> k \<in> set (keys t)"
  by (auto simp: Trace_getitem_def keys_def split: option.splits
        dest: map_of_SomeD intro: rev_image_eqI)

lemma prefix_getitem:
  assumes "prefix (tr_items t) (tr_items t')" and "Trace_getitem t k = Inr v"
  shows "Trace_getitem t' k = Inr v"
proof -
  from assms(1) obtain zs where "tr_items t' = tr_items t @ zs" by (auto simp: prefix_def)
  with assms(2) show ?thesis
    by (auto simp: Trace_getitem_def map_add_def split: option.splits)
qed

lemma grows_items: "grows s s' \<Longrightarrow> prefix (tr_items (trace s)) (tr_items (trace s'))"
  by (simp add: grows_def)

text \<open>A node whose name is in the trace, when no log-probability is due: nothing runs.\<close>

lemma evaluate_memo:
  assumes "this_name lv \<in> set (keys (trace s))"
    and "\<not> (tr_eval_log_probs (trace s) \<and> dist lv \<and> this_name lv \<noteq> [])"
  shows "evaluate lv s = (Trace_getitem (trace s) (this_name lv), s)"
proof -
  obtain name out_names f d as kws where lv: "lv = LazyValue name out_names f d as kws"
    by (cases lv)
  from assms show ?thesis
    unfolding lv by (auto simp del: call_fn.simps)
qed

text \<open>
  The log of a first evaluation: what evaluating the arguments logged, then one entry
  for the node's own \<open>self._fn(...)\<close>.
\<close>

lemma populate_calls: "calls (snd (populate out_names d obj s)) = calls s"
  by (cases d; cases obj)
     (auto simp: populate_def Let_def split: prod.splits sum.splits)

lemma populate_instance:
  "populate out_names d obj s = (Inr inst, s') \<Longrightarrow> inst = (if d then Some obj else None)"
  by (cases d; cases obj)
     (auto simp: populate_def Let_def split: prod.splits sum.splits)

lemma record_log_prob_calls: "calls (snd (record_log_prob name obj s)) = calls s"
  by (cases obj) (auto simp: record_log_prob_def split: prod.splits sum.splits)

lemma call_fn_calls:
  assumes "call_fn lv s = (Inr obj, s1)"
  shows "calls s1 =
           calls (snd (eval_args (args lv) (snd (eval_kwargs (kwargs lv) s)))) @ [this_name lv]"
proof -
  obtain name out_names f d as kws where lv: "lv = LazyValue name out_names f d as kws"
    by (cases lv)
  from assms show ?thesis
    unfolding lv by (auto split: prod.splits sum.splits)
qed

lemma evaluate_calls_once:
  assumes "evaluate lv s = (Inr v, s1)" and "this_name lv \<notin> set (keys (trace s))"
  shows "calls s1 =
           calls (snd (eval_args (args lv) (snd (eval_kwargs (kwargs lv) s)))) @ [this_name lv]"
proof -
  obtain name out_names f d as kws where lv: "lv = LazyValue name out_names f d as kws"
    by (cases lv)
  let ?lv = "LazyValue name out_names f d as kws"
  obtain rc sc where c: "call_fn ?lv s = (rc, sc)" by (cases "call_fn ?lv s")
  from assms c obtain obj where rc: "rc = Inr obj"
    unfolding lv by (cases rc) (auto simp: Let_def simp del: call_fn.simps)
  obtain rp sp where p: "populate out_names d obj sc = (rp, sp)"
    by (cases "populate out_names d obj sc")
  from assms c rc p obtain inst where rp: "rp = Inr inst"
    unfolding lv by (cases rp) (auto simp: Let_def simp del: call_fn.simps)
  from p rp have inst: "inst = (if d then Some obj else None)"
    by (auto dest: populate_instance)
  from p populate_calls [of out_names d obj sc] have sp: "calls sp = calls sc" by simp
  have "calls s1 = calls sp"
  proof (cases "tr_eval_log_probs (trace sp) \<and> name \<noteq> [] \<and> d")
    case False
    with assms c rc p rp show ?thesis
      unfolding lv by (auto simp: Let_def simp del: call_fn.simps)
  next
    case True
    with inst have i: "inst = Some obj" by simp
    obtain rl sl where l: "record_log_prob name obj sp = (rl, sl)"
      by (cases "record_log_prob name obj sp")
    with record_log_prob_calls [of name obj sp] have "calls sl = calls sp" by simp
    with assms c rc p rp True i l show ?thesis
      unfolding lv by (auto simp: Let_def simp del: call_fn.simps split: sum.splits)
  qed
  with sp call_fn_calls [of ?lv s obj sc] c rc show ?thesis
    unfolding lv by simp
qed

lemma evaluate_populates:
  assumes "fst (evaluate lv s) = Inr v" and "this_name lv \<notin> set (keys (trace s))"
  shows "this_name lv \<in> set (keys (trace (snd (evaluate lv s)))) \<and>
         calls (snd (evaluate lv s)) =
           calls (snd (eval_args (args lv) (snd (eval_kwargs (kwargs lv) s)))) @ [this_name lv]"
proof -
  from assms(1) have e: "evaluate lv s = (Inr v, snd (evaluate lv s))"
    by (cases "evaluate lv s") simp
  from evaluate_Inr_key [OF e] evaluate_calls_once [OF e assms(2)] show ?thesis
    by (auto dest: getitem_key)
qed

lemma key_getitem: "k \<in> set (keys t) \<Longrightarrow> \<exists>v. Trace_getitem t k = Inr v"
  by (auto simp: Trace_getitem_def keys_def split: option.splits
        dest: weak_map_of_SomeI)







lemma u_sample_grows: "grows s (snd (u_sample names f d as kws s))"
proof (cases names)
  case (IsStr n)
  let ?lv = "LazyValue (tr_prefix (trace s) @ n) (Name (tr_prefix (trace s) @ n)) f d as kws"
  from evaluate_grows(1) [of s ?lv] IsStr show ?thesis
    by (auto simp: u_sample_def Let_def grows_refl simp del: evaluate.simps
          split: prod.splits sum.splits)
next
  case (IsList ns)
  show ?thesis
  proof (cases ns)
    case Nil
    with IsList show ?thesis by (simp add: u_sample_def grows_refl)
  next
    case (Cons n rest)
    let ?names = "map (\<lambda>n. tr_prefix (trace s) @ n) ns"
    let ?lv = "LazyValue (tr_prefix (trace s) @ n) (Names ?names) f d as kws"
    from evaluate_grows(1) [of s ?lv] IsList Cons show ?thesis
      by (auto simp: u_sample_def Let_def grows_refl simp del: evaluate.simps
            split: prod.splits sum.splits)
  qed
next
  case IsOther
  then show ?thesis by (simp add: u_sample_def grows_refl)
qed

text \<open>Concrete runs.\<close>

lemmas run_defs = state0_def Trace_init_def returns_def point_dist_def keys_def
        populate_def record_log_prob_def store_result_def Trace_setitem_def Trace_getitem_def

lemma node_y_first:
  "evaluate node_y (state0 None [] False) =
     (Inr (PInt 7),
      \<lparr>trace = \<lparr>tr_items = [(''y'', PInt 7)], tr_targets = None, tr_prefix = [],
                tr_eval_log_probs = False\<rparr>,
       world = (), calls = [''y'']\<rparr>)"
  by (simp add: node_y_def run_defs)

lemma nested_run:
  "with_prefix ''b'' (with_prefix ''a'' (u_sample (IsStr ''x'') (returns (Data (PInt 1))) False [] []))
       (state0 None [] False) =
     (Inr (One (LazyValue ''abx'' (Name ''abx'') (returns (Data (PInt 1))) False [] [])),
      \<lparr>trace = \<lparr>tr_items = [(''abx'', PInt 1)], tr_targets = None, tr_prefix = [],
                tr_eval_log_probs = False\<rparr>,
       world = (), calls = [''abx'']\<rparr>)"
  by (simp add: with_prefix_def cm_enter_def cm_exit_def Trace_prefix_def
        u_sample_def Let_def run_defs)

lemma reg_y:
  "u_sample (IsStr ''y'') (returns (Data (PInt 1))) False [] [] (state0 (Some [''x'']) [] False) =
     (Inr (One (LazyValue ''y'' (Name ''y'') (returns (Data (PInt 1))) False [] [])),
      state0 (Some [''x'']) [] False)"
  by (simp add: u_sample_def Let_def run_defs)




lemma evaluate_conditioned:
  assumes "this_name lv \<in> set (keys (trace s))"
    and "\<not> (tr_eval_log_probs (trace s) \<and> dist lv \<and> this_name lv \<noteq> [])"
  shows "fst (evaluate lv s) \<noteq> Inl e" "snd (evaluate lv s) = s"
  using evaluate_memo [OF assms] key_getitem [OF assms(1)] by auto


lemma with_prefix_items:
  "tr_items (trace (snd (with_prefix p body s))) =
     tr_items (trace (snd (body (snd (cm_enter (Trace_prefix p) s)))))"
  by (auto simp: with_prefix_def cm_exit_def split: prod.splits)

section \<open>Lengths of a resized store\<close>

lemma store_x_eq:
  "store_x =
     \<lparr>data = Some [(''x'', \<lparr>shape = [2, 3], chunks = [1, 3], dtype = ''float64''\<rparr>)],
      sim_status = Some \<lparr>shape = [2], chunks = [1], dtype = ''int32''\<rparr>,
      attr_chunk_size = Some 1\<rparr>"
  unfolding store_x_def by code_simp

lemma len_store_x: "len store_x = Inr 2"
  unfolding store_x_eq by code_simp

lemma lens_shapes: "lens as = Inr ns \<Longrightarrow> list_all (\<lambda>a. shape a \<noteq> []) as"
  by (induction as arbitrary: ns) (auto simp: len_array_def split: sum.splits list.splits)

lemma resize_all_shapes:
  assumes "list_all (\<lambda>a. shape a \<noteq> []) (map snd d)"
  shows "resize_all d N = (Inr (), map (\<lambda>(k, x). (k, x\<lparr>shape := N # tl (shape x)\<rparr>)) d)"
  using assms
proof (induction d)
  case Nil
  show ?case by simp
next
  case (Cons ka d)
  obtain k a where ka: "ka = (k, a)" by (cases ka)
  from Cons.prems ka obtain n rest where "shape a = n # rest"
    by (cases "shape a") auto
  with Cons ka show ?case by (simp add: resize_def)
qed

lemma lens_resized:
  assumes "0 \<le> N" and "N \<le> maxsize"
  shows "lens (map snd (map (\<lambda>(k, x). (k, x\<lparr>shape := N # tl (shape x)\<rparr>)) d)) =
           Inr (replicate (length d) N)"
  using assms by (induction d) (auto simp: len_array_def)

lemma len_data: "len st = Inr n \<Longrightarrow> data st = Some d \<Longrightarrow>
    d \<noteq> [] \<and> list_all (\<lambda>a. shape a \<noteq> []) (map snd d)"
  by (auto simp: len_def split: sum.splits list.splits dest: lens_shapes)

lemma len_resized_store:
  assumes "d \<noteq> []" and "0 \<le> N" and "N \<le> maxsize"
  shows "len (st\<lparr>data := Some (map (\<lambda>(k, x). (k, x\<lparr>shape := N # tl (shape x)\<rparr>)) d),
                 sim_status := ss\<rparr>) = Inr N"
proof -
  from assms(1) obtain m where "length d = Suc m" by (cases d) auto
  then show ?thesis
    using assms(2,3) by (simp add: len_def lens_resized list_all_iff del: map_map)
qed

section \<open>Contiguous runs of row indices\<close>

text \<open>
  C7.  \<open>get_index_slices([2, 3, 4, 7, 8, 10])\<close> returns three runs, in order: batch
  positions \<open>[0, 3)\<close> with rows \<open>[2, 5)\<close>, positions \<open>[3, 5)\<close> with rows \<open>[7, 9)\<close>, and
  positions \<open>[5, 6)\<close> with rows \<open>[10, 11)\<close>.
\<close>

theorem get_index_slices_example:
  "get_index_slices [2, 3, 4, 7, 8, 10] =
     Inr [[[0, 3], [2, 5]], [[3, 5], [7, 9]], [[5, 6], [10, 11]]]"
  by code_simp

section \<open>Re-initialising a store\<close>

text \<open>
  C2, as the code has it.  On a store that has rows (\<open>len(self) > 0\<close>), \<open>init\<close> prints
  its warning and returns the store as it is, whatever \<open>N\<close>, chunk size, shapes and dtypes
  it is given: it is idempotent, and it compares nothing.  The assertions of
  \<open>_init_shapes\<close> are reached only from a store of length \<open>0\<close>.
\<close>

theorem init_initialized_returns:
  assumes "len st = Inr n" and "0 < n"
  shows "init st N chunk_size shapes dtypes = (Inr (), st)"
  using assms by (simp add: init_def)

theorem init_initialized_returns_witness:
  "len store_x = Inr 2 \<and> (0::int) < 2 \<and>
   init store_x 2 1 (Some [(''x'', [3])]) (Some [(''x'', ''float64'')]) = (Inr (), store_x)"
proof -
  have p: "(0::int) < 2" by simp
  from init_initialized_returns [OF len_store_x p] len_store_x p show ?thesis by simp
qed

text \<open>
  C2 as stated fails: the store holds \<open>x\<close> with shape \<open>(2, 3)\<close>, dtype \<open>float64\<close> and chunk
  size \<open>1\<close>; \<open>init(2, 7, {"x": (4,)}, {"x": "i4"})\<close> differs in shape, dtype and chunk
  size, and returns without an error, the store unchanged.
\<close>

theorem init_mismatch_not_reported:
  "len store_x = Inr 2 \<and>
   init store_x 2 7 (Some [(''x'', [4])]) (Some [(''x'', ''int32'')]) = (Inr (), store_x)"
  using len_store_x by (simp add: init_def)

text \<open>
  Where the comparison does happen: a store initialised with \<open>N = 0\<close> has arrays and
  length \<open>0\<close>, so \<open>init\<close> reaches \<open>_init_shapes\<close>, whose assertion fails on the shape.
\<close>

lemma init_mismatch_reported_at_length_0:
  "fst (init (snd (init ZarrStore_new 0 1 (Some [(''x'', [3])]) (Some [(''x'', ''float64'')])))
          0 1 (Some [(''x'', [4])]) (Some [(''x'', ''float64'')])) =
     Inl (AssertionError ''Inconsistent array sizes'')"
  by code_simp

section \<open>Resizing a store\<close>

text \<open>
  C8, as the code has it.  On a store of length \<open>n\<close>, \<open>set_length(N)\<close> with \<open>N < n\<close> and no
  \<open>clubber\<close> raises the \<open>ValueError\<close> and leaves the store as it was.  With \<open>N \<ge> n\<close> or
  with \<open>clubber\<close>, on a store that has its group \<open>data\<close> and its one-dimensional status
  array (what \<open>init\<close> creates), it sets the first dimension of every data array and of
  the status array to \<open>N\<close>; when \<open>0 \<le> N \<le> sys.maxsize\<close> every array and the store then
  have length \<open>N\<close>.  On a store without its group \<open>data\<close> it raises \<open>KeyError\<close> and
  resizes nothing.
\<close>

theorem set_length_contract:
  assumes "len st = Inr n"
  shows "(N < n \<and> \<not> clubber \<longrightarrow>
            set_length st N clubber = (Inl (ValueError shrink_message), st)) \<and>
         ((n \<le> N \<or> clubber) \<and> data st = Some d \<and> sim_status st = Some a \<and>
          length (shape a) = 1 \<longrightarrow>
            set_length st N clubber =
              (Inr (),
               st\<lparr>data := Some (map (\<lambda>(k, x). (k, x\<lparr>shape := N # tl (shape x)\<rparr>)) d),
                  sim_status := Some (a\<lparr>shape := [N]\<rparr>)\<rparr>) \<and>
            (0 \<le> N \<and> N \<le> maxsize \<longrightarrow>
               len (snd (set_length st N clubber)) = Inr N \<and>
               list_all (\<lambda>(k, x). len_array x = Inr N)
                 (map (\<lambda>(k, x). (k, x\<lparr>shape := N # tl (shape x)\<rparr>)) d) \<and>
               len_array (a\<lparr>shape := [N]\<rparr>) = Inr N)) \<and>
         ((n \<le> N \<or> clubber) \<and> data st = None \<longrightarrow>
            set_length st N clubber = (Inl (KeyError ''data''), st))"
proof (intro conjI impI)
  assume "N < n \<and> \<not> clubber"
  with assms show "set_length st N clubber = (Inl (ValueError shrink_message), st)"
    by (simp add: set_length_def)
next
  assume h: "(n \<le> N \<or> clubber) \<and> data st = Some d \<and> sim_status st = Some a \<and>
          length (shape a) = 1"
  from h assms have d: "d \<noteq> []" "list_all (\<lambda>a. shape a \<noteq> []) (map snd d)"
    by (auto dest: len_data)
  from h assms resize_all_shapes [OF d(2), of N]
  show r: "set_length st N clubber =
      (Inr (), st\<lparr>data := Some (map (\<lambda>(k, x). (k, x\<lparr>shape := N # tl (shape x)\<rparr>)) d),
                  sim_status := Some (a\<lparr>shape := [N]\<rparr>)\<rparr>)"
    by (auto simp: set_length_def Let_def resize_def)
  assume n: "0 \<le> N \<and> N \<le> maxsize"
  from len_resized_store [OF d(1), of N] n r
  show "len (snd (set_length st N clubber)) = Inr N" by simp
  from n show "list_all (\<lambda>(k, x). len_array x = Inr N)
                 (map (\<lambda>(k, x). (k, x\<lparr>shape := N # tl (shape x)\<rparr>)) d)"
    by (auto simp: list_all_iff len_array_def)
  from n show "len_array (a\<lparr>shape := [N]\<rparr>) = Inr N"
    by (simp add: len_array_def)
next
  assume "(n \<le> N \<or> clubber) \<and> data st = None"
  with assms show "set_length st N clubber = (Inl (KeyError ''data''), st)"
    by (auto simp: set_length_def)
qed

theorem set_length_contract_witness:
  "len store_x = Inr 2 \<and>
   set_length store_x 1 False = (Inl (ValueError shrink_message), store_x) \<and>
   len (snd (set_length store_x 3 False)) = Inr 3 \<and>
   len (snd (set_length store_x 1 True)) = Inr 1"
proof -
  let ?d = "[(''x'', \<lparr>shape = [2, 3], chunks = [1, 3], dtype = ''float64''\<rparr>)]"
  let ?a = "\<lparr>shape = [2], chunks = [1], dtype = ''int32''\<rparr>"
  have shrink: "(1::int) < 2 \<and> \<not> False" by simp
  have grow: "((2::int) \<le> 3 \<or> False) \<and> data store_x = Some ?d \<and> sim_status store_x = Some ?a \<and>
              length (shape ?a) = 1"
    by (simp add: store_x_eq)
  have force: "((2::int) \<le> 1 \<or> True) \<and> data store_x = Some ?d \<and> sim_status store_x = Some ?a \<and>
              length (shape ?a) = 1"
    by (simp add: store_x_eq)
  have r3: "(0::int) \<le> 3 \<and> 3 \<le> maxsize" and r1: "(0::int) \<le> 1 \<and> 1 \<le> maxsize"
    by (simp_all add: maxsize_def)
  note c = set_length_contract [OF len_store_x]
  from c [THEN conjunct1, THEN mp, OF shrink]
    c [THEN conjunct2, THEN conjunct1, THEN mp, OF grow, THEN conjunct2, THEN mp, OF r3,
       THEN conjunct1]
    c [THEN conjunct2, THEN conjunct1, THEN mp, OF force, THEN conjunct2, THEN mp, OF r1,
       THEN conjunct1]
    len_store_x
  show ?thesis by (intro conjI)
qed

text \<open>
  C8 as stated fails: a new store has length \<open>0\<close>, and \<open>set_length(3)\<close> resizes nothing:
  \<open>self.data\<close> raises \<open>KeyError\<close>.
\<close>

theorem set_length_new_store:
  "len ZarrStore_new = Inr 0 \<and>
   set_length ZarrStore_new 3 False = (Inl (KeyError ''data''), ZarrStore_new)"
  by (simp add: len_def set_length_def ZarrStore_new_def)

section \<open>Prefix scopes\<close>

text \<open>
  C9.  After \<open>with trace.prefix(p): body\<close> the prefix of the trace is what it was before,
  whether the body ended with a value or with an exception, and whatever the body did to
  the prefix.  Entering changes the prefix only (to \<open>p\<close> followed by the old prefix), and
  leaving changes the prefix only: the result and the rest of the state are the body's.
\<close>

theorem prefix_scope_restores:
  "tr_prefix (trace (snd (with_prefix p body s))) = tr_prefix (trace s) \<and>
   snd (cm_enter (Trace_prefix p) s) =
     s\<lparr>trace := (trace s)\<lparr>tr_prefix := p @ tr_prefix (trace s)\<rparr>\<rparr> \<and>
   with_prefix p body s =
     (fst (body (snd (cm_enter (Trace_prefix p) s))),
      (snd (body (snd (cm_enter (Trace_prefix p) s))))
        \<lparr>trace := (trace (snd (body (snd (cm_enter (Trace_prefix p) s)))))
                    \<lparr>tr_prefix := tr_prefix (trace s)\<rparr>\<rparr>)"
  by (simp add: with_prefix_def cm_enter_def cm_exit_def Trace_prefix_def split: prod.splits)

text \<open>
  C3, as the code has it.  A name \<open>x\<close> registered inside \<open>trace.prefix(a)\<close> nested inside
  \<open>trace.prefix(b)\<close> gets the inner prefix first: the node is named \<open>a + b + x\<close> (after
  the prefix the trace had before), that is the key it is stored under when it is
  evaluated at registration, and the prefix is restored after both scopes.
\<close>

theorem nested_prefix_inner_first:
  assumes "with_prefix b (with_prefix a (u_sample (IsStr x) f d as kws)) s = (Inr r, s')"
  shows "r = One (LazyValue (a @ b @ tr_prefix (trace s) @ x)
                    (Name (a @ b @ tr_prefix (trace s) @ x)) f d as kws) \<and>
         (tr_targets (trace s) = None \<longrightarrow>
            a @ b @ tr_prefix (trace s) @ x \<in> set (keys (trace s'))) \<and>
         tr_prefix (trace s') = tr_prefix (trace s)"
proof -
  let ?s2 = "s\<lparr>trace := (trace s)\<lparr>tr_prefix := a @ b @ tr_prefix (trace s)\<rparr>\<rparr>"
  let ?name = "a @ b @ tr_prefix (trace s) @ x"
  let ?lv = "LazyValue ?name (Name ?name) f d as kws"
  obtain r2 s3 where u: "u_sample (IsStr x) f d as kws ?s2 = (r2, s3)"
    by (cases "u_sample (IsStr x) f d as kws ?s2")
  have w: "with_prefix b (with_prefix a (u_sample (IsStr x) f d as kws)) s =
           (r2, s3\<lparr>trace := (trace s3)\<lparr>tr_prefix := tr_prefix (trace s)\<rparr>\<rparr>)"
    using u by (simp add: with_prefix_def cm_enter_def cm_exit_def Trace_prefix_def)
  with assms have r2: "r2 = Inr r"
    and s': "s' = s3\<lparr>trace := (trace s3)\<lparr>tr_prefix := tr_prefix (trace s)\<rparr>\<rparr>"
    by simp_all
  have r: "r = One ?lv"
    using u r2
    by (auto simp: u_sample_def Let_def simp del: evaluate.simps
          split: if_splits prod.splits sum.splits)
  have k: "?name \<in> set (keys (trace s'))" if "tr_targets (trace s) = None"
  proof -
    from u r2 that obtain v where "evaluate ?lv ?s2 = (Inr v, s3)"
      by (auto simp: u_sample_def Let_def simp del: evaluate.simps
            split: if_splits prod.splits sum.splits)
    from evaluate_Inr_key [OF this] have "?name \<in> set (keys (trace s3))"
      by (auto dest: getitem_key)
    then show ?thesis by (simp add: s' keys_def)
  qed
  from r k s' show ?thesis by simp
qed

theorem nested_prefix_inner_first_witness:
  "with_prefix ''b'' (with_prefix ''a'' (u_sample (IsStr ''x'') (returns (Data (PInt 1))) False [] []))
       (state0 None [] False) =
     (Inr (One (LazyValue ''abx'' (Name ''abx'') (returns (Data (PInt 1))) False [] [])),
      \<lparr>trace = \<lparr>tr_items = [(''abx'', PInt 1)], tr_targets = None, tr_prefix = [],
                tr_eval_log_probs = False\<rparr>,
       world = (), calls = [''abx'']\<rparr>) \<and>
   ''abx'' \<in> set (keys \<lparr>tr_items = [(''abx'', PInt 1)], tr_targets = None, tr_prefix = [],
                tr_eval_log_probs = False\<rparr>)"
proof -
  have t: "tr_targets (trace (state0 None [] False)) = None"
    by (simp add: state0_def Trace_init_def)
  from nested_prefix_inner_first [OF nested_run, THEN conjunct2, THEN conjunct1, THEN mp, OF t]
  have "''abx'' \<in> set (keys \<lparr>tr_items = [(''abx'', PInt 1)], tr_targets = None, tr_prefix = [],
                tr_eval_log_probs = False\<rparr>)"
    by (simp add: state0_def Trace_init_def)
  with nested_run show ?thesis by (intro conjI)
qed

text \<open>
  C3 as stated fails: with \<open>trace.prefix("a")\<close> inside \<open>trace.prefix("b")\<close>, \<open>x\<close> is stored
  under \<open>"abx"\<close>, not under \<open>"bax"\<close>.
\<close>

theorem nested_prefix_key:
  "tr_items (trace (snd (with_prefix ''b''
       (with_prefix ''a'' (sample (IsStr ''x'') (returns (Data (PInt 1))) [] []))
       (state0 None [] False)))) = [(''abx'', PInt 1)]"
  by (simp add: with_prefix_def cm_enter_def cm_exit_def Trace_prefix_def sample_def
        u_sample_def Let_def run_defs)

section \<open>Running a simulator\<close>

text \<open>
  C5.  In a run with a target list, when \<open>forward\<close> was called and has returned and a
  target \<open>k\<close> is still not a key of the trace, \<open>_run\<close> raises \<open>ValueError("Missing
  simulation targets.")\<close>.  The world is the one \<open>forward\<close> left: \<open>forward\<close> ran once,
  and \<open>on_after_forward\<close> did not run.
\<close>

theorem run_missing_targets:
  assumes "(case conditions of Callable c \<Rightarrow> c w | Dict d \<Rightarrow> (Inr d, w)) = (Inr conds, w1)"
    and "on_before_forward sim conds w1 = (Inr conds', w2)"
    and "targets = Some ts"
    and "\<not> covers_targets (Trace_init targets conds' log_prob)"
    and "forward sim \<lparr>trace = Trace_init targets conds' log_prob, world = w2, calls = []\<rparr> =
           (Inr u, s1)"
    and "tr_targets (trace s1) = Some ts"
    and "k \<in> set ts" and "k \<notin> set (keys (trace s1))"
  shows "u_run sim targets conditions log_prob w =
           (Inl (ValueError ''Missing simulation targets.''), world s1)"
proof -
  from assms(6-8) have "\<not> covers_targets (trace s1)"
    by (auto simp: covers_targets_def list_all_iff)
  with assms(1-5) show ?thesis by (simp add: u_run_def Let_def)
qed

theorem run_missing_targets_witness:
  "u_run (Simulator_default no_forward) (Some [''x'']) (Dict [(''z'', PInt 1)]) False () =
     (Inl (ValueError ''Missing simulation targets.''), ())"
proof -
  let ?sim = "Simulator_default no_forward :: unit Simulator"
  let ?s0 = "\<lparr>trace = Trace_init (Some [''x'']) [(''z'', PInt 1)] False, world = (),
              calls = []\<rparr>"
  have 1: "(case Dict [(''z'', PInt 1)] of Callable c \<Rightarrow> c () | Dict d \<Rightarrow> (Inr d, ())) =
             (Inr [(''z'', PInt 1)], ())"
    by simp
  have 2: "on_before_forward ?sim [(''z'', PInt 1)] () = (Inr [(''z'', PInt 1)], ())"
    by (simp add: Simulator_default_def default_hook_def)
  have 3: "Some [''x''] = Some [''x'']" ..
  have 4: "\<not> covers_targets (Trace_init (Some [''x'']) [(''z'', PInt 1)] False)"
    by (simp add: covers_targets_def Trace_init_def keys_def)
  have 5: "forward ?sim ?s0 = (Inr (), ?s0)"
    by (simp add: Simulator_default_def no_forward_def)
  have 6: "tr_targets (trace ?s0) = Some [''x'']"
    by (simp add: Trace_init_def)
  have 7: "''x'' \<in> set [''x'']" by simp
  have 8: "''x'' \<notin> set (keys (trace ?s0))"
    by (simp add: Trace_init_def keys_def)
  from run_missing_targets [OF 1 2 3 4 5 6 7 8] show ?thesis by simp
qed

text \<open>
  C6.  When the conditions (after \<open>on_before_forward\<close>) cover the targets, \<open>_run\<close> returns
  \<open>on_after_forward\<close> of the conditions and does not call \<open>forward\<close>: the result is the
  same for every \<open>forward\<close>, also one that raises or changes the world.  With the default
  hooks, \<open>targets = ["x"]\<close> and \<open>conditions = {"x": 5}\<close> the run returns \<open>{"x": 5}\<close>.
\<close>

theorem run_covered_skips_forward:
  assumes "(case conditions of Callable c \<Rightarrow> c w | Dict d \<Rightarrow> (Inr d, w)) = (Inr conds, w1)"
    and "on_before_forward sim conds w1 = (Inr conds', w2)"
    and "covers_targets (Trace_init targets conds' log_prob)"
  shows "u_run sim targets conditions log_prob w = on_after_forward sim conds' w2 \<and>
         u_run (sim\<lparr>forward := fwd\<rparr>) targets conditions log_prob w =
           u_run sim targets conditions log_prob w"
  using assms by (simp add: u_run_def Let_def) (simp add: Trace_init_def)

theorem run_covered_skips_forward_witness:
  "\<forall>fwd :: 'w state \<Rightarrow> (error + unit) \<times> 'w state. \<forall>log_prob w.
     u_run (Simulator_default fwd) (Some [''x'']) (Dict [(''x'', PInt 5)]) log_prob w =
       (Inr [(''x'', PInt 5)], w)"
proof (intro allI)
  fix fwd :: "'w state \<Rightarrow> (error + unit) \<times> 'w state" and log_prob and w :: 'w
  let ?sim = "Simulator_default fwd"
  have 1: "(case Dict [(''x'', PInt 5)] of Callable c \<Rightarrow> c w | Dict d \<Rightarrow> (Inr d, w)) =
             (Inr [(''x'', PInt 5)], w)"
    by simp
  have 2: "on_before_forward ?sim [(''x'', PInt 5)] w = (Inr [(''x'', PInt 5)], w)"
    by (simp add: Simulator_default_def default_hook_def)
  have 3: "covers_targets (Trace_init (Some [''x'']) [(''x'', PInt 5)] log_prob)"
    by (simp add: covers_targets_def Trace_init_def keys_def)
  from run_covered_skips_forward [OF 1 2 3]
  show "u_run ?sim (Some [''x'']) (Dict [(''x'', PInt 5)]) log_prob w =
          (Inr [(''x'', PInt 5)], w)"
    by (simp add: Simulator_default_def default_hook_def)
qed

section \<open>Memoisation and write-once keys\<close>

text \<open>
  C1, as the code has it.  After an evaluation that returned \<open>v\<close>: a second evaluation
  that returns, returns \<open>v\<close>.  Unless the trace collects log-probabilities and the node
  is a distribution node with a non-empty name, the second evaluation returns \<open>v\<close> and
  changes nothing: no argument is evaluated and no function is invoked.  When the name
  was not in the trace before, the first evaluation invoked the node's function once:
  the log is what evaluating the arguments logged, then the one entry of the node.
\<close>

theorem evaluate_twice:
  assumes "evaluate lv s = (Inr v, s1)"
  shows "(\<not> (tr_eval_log_probs (trace s) \<and> dist lv \<and> this_name lv \<noteq> []) \<longrightarrow>
            evaluate lv s1 = (Inr v, s1)) \<and>
         (case fst (evaluate lv s1) of Inl e \<Rightarrow> True | Inr v2 \<Rightarrow> v2 = v) \<and>
         (this_name lv \<notin> set (keys (trace s)) \<longrightarrow>
            calls s1 =
              calls (snd (eval_args (args lv) (snd (eval_kwargs (kwargs lv) s)))) @
              [this_name lv])"
proof (intro conjI impI)
  from evaluate_Inr_key [OF assms] have g: "Trace_getitem (trace s1) (this_name lv) = Inr v" .
  then have k: "this_name lv \<in> set (keys (trace s1))" by (rule getitem_key)
  from evaluate_grows(1) [of s lv] assms have gr: "grows s s1" by simp
  {
    assume "\<not> (tr_eval_log_probs (trace s) \<and> dist lv \<and> this_name lv \<noteq> [])"
    with gr have "\<not> (tr_eval_log_probs (trace s1) \<and> dist lv \<and> this_name lv \<noteq> [])"
      by (simp add: grows_def)
    from evaluate_memo [OF k this] g show "evaluate lv s1 = (Inr v, s1)" by simp
  }
  show "case fst (evaluate lv s1) of Inl e \<Rightarrow> True | Inr v2 \<Rightarrow> v2 = v"
  proof (cases "evaluate lv s1")
    case (Pair r s2)
    show ?thesis
    proof (cases r)
      case (Inl e)
      with Pair show ?thesis by simp
    next
      case (Inr v2)
      with Pair evaluate_Inr_key [of lv s1 v2 s2]
      have 2: "Trace_getitem (trace s2) (this_name lv) = Inr v2" by simp
      from evaluate_grows(1) [of s1 lv] Pair have "grows s1 s2" by simp
      then have "prefix (tr_items (trace s1)) (tr_items (trace s2))" by (rule grows_items)
      from prefix_getitem [OF this g] 2 have "v2 = v" by simp
      with Pair Inr show ?thesis by simp
    qed
  qed
  {
    assume "this_name lv \<notin> set (keys (trace s))"
    from evaluate_calls_once [OF assms this]
    show "calls s1 =
              calls (snd (eval_args (args lv) (snd (eval_kwargs (kwargs lv) s)))) @
              [this_name lv]" .
  }
qed

theorem evaluate_twice_witness:
  "evaluate node_y (state0 None [] False) =
     (Inr (PInt 7),
      \<lparr>trace = \<lparr>tr_items = [(''y'', PInt 7)], tr_targets = None, tr_prefix = [],
                tr_eval_log_probs = False\<rparr>,
       world = (), calls = [''y'']\<rparr>) \<and>
   evaluate node_y
      \<lparr>trace = \<lparr>tr_items = [(''y'', PInt 7)], tr_targets = None, tr_prefix = [],
                tr_eval_log_probs = False\<rparr>,
       world = (), calls = [''y'']\<rparr> =
     (Inr (PInt 7),
      \<lparr>trace = \<lparr>tr_items = [(''y'', PInt 7)], tr_targets = None, tr_prefix = [],
                tr_eval_log_probs = False\<rparr>,
       world = (), calls = [''y'']\<rparr>)"
proof -
  have flag: "\<not> (tr_eval_log_probs (trace (state0 None [] False)) \<and> dist node_y \<and>
                this_name node_y \<noteq> [])"
    by (simp add: state0_def Trace_init_def)
  from evaluate_twice [OF node_y_first, THEN conjunct1, THEN mp, OF flag] node_y_first
  show ?thesis by (intro conjI)
qed

text \<open>
  C1 as stated fails: in a trace that collects log-probabilities, the second evaluation of
  the distribution node \<open>x\<close> returns the same value and invokes the node's function again,
  twice across both evaluations.
\<close>

theorem evaluate_twice_calls_fn_twice:
  "fst (evaluate node_x (state0 None [] True)) = Inr (PInt 1) \<and>
   calls (snd (evaluate node_x (state0 None [] True))) = [''x''] \<and>
   fst (evaluate node_x (snd (evaluate node_x (state0 None [] True)))) = Inr (PInt 1) \<and>
   calls (snd (evaluate node_x (snd (evaluate node_x (state0 None [] True))))) = [''x'', ''x'']"
  by (simp add: node_x_def run_defs)

text \<open>
  C4, as the code has it.  A write \<open>trace[k] = v'\<close> to a key that is set changes
  nothing.  After any operation that the repository defines on a trace (a write to any
  key, an evaluation, a registration, entering or leaving a prefix scope, a registration
  inside a scope, a scope around any body that keeps the items) the items the trace had
  are still its first items, unchanged and in place, and the key still reads \<open>v\<close>.
\<close>

theorem trace_write_once:
  assumes "Trace_getitem (trace s) k = Inr v"
  shows "Trace_setitem (trace s) k v' = trace s \<and>
         (\<forall>s' \<in> {s\<lparr>trace := Trace_setitem (trace s) k' v'\<rparr>,
                  snd (evaluate lv s),
                  snd (u_sample names f d as kws s),
                  snd (sample names f as kws s),
                  snd (sample_dist names f as kws s),
                  snd (cm_enter cm s),
                  cm_exit cm s,
                  snd (with_prefix p (u_sample names f d as kws) s)}.
            prefix (tr_items (trace s)) (tr_items (trace s')) \<and>
            Trace_getitem (trace s') k = Inr v) \<and>
         ((\<forall>s0. prefix (tr_items (trace s0)) (tr_items (trace (snd (body s0))))) \<longrightarrow>
            prefix (tr_items (trace s)) (tr_items (trace (snd (with_prefix p body s)))) \<and>
            Trace_getitem (trace (snd (with_prefix p body s))) k = Inr v)"
proof -
  have 1: "Trace_setitem (trace s) k v' = trace s"
    using getitem_key [OF assms] by (simp add: Trace_setitem_def)
  let ?s1 = "snd (cm_enter (Trace_prefix p) s)"
  have e: "tr_items (trace ?s1) = tr_items (trace s)"
    by (simp add: cm_enter_def)
  have w: "prefix (tr_items (trace s))
             (tr_items (trace (snd (with_prefix p (u_sample names f d as kws) s))))"
    using grows_items [OF u_sample_grows [of ?s1 names f d as kws]] e
    by (simp add: with_prefix_items)
  have 2: "prefix (tr_items (trace s)) (tr_items (trace s'))"
    if "s' \<in> {s\<lparr>trace := Trace_setitem (trace s) k' v'\<rparr>,
                  snd (evaluate lv s),
                  snd (u_sample names f d as kws s),
                  snd (sample names f as kws s),
                  snd (sample_dist names f as kws s),
                  snd (cm_enter cm s),
                  cm_exit cm s,
                  snd (with_prefix p (u_sample names f d as kws) s)}" for s'
    using that Trace_setitem_frame(1) [of "trace s" k' v']
      grows_items [OF evaluate_grows(1) [of s lv]]
      grows_items [OF u_sample_grows [of s names f d as kws]]
      grows_items [OF u_sample_grows [of s names f False as kws]]
      grows_items [OF u_sample_grows [of s names f True as kws]] w
    by (auto simp: sample_def sample_dist_def cm_enter_def cm_exit_def)
  have 3: "prefix (tr_items (trace s)) (tr_items (trace (snd (with_prefix p body s))))"
    if "\<forall>s0. prefix (tr_items (trace s0)) (tr_items (trace (snd (body s0))))"
    using that [rule_format, of ?s1] e by (simp add: with_prefix_items)
  from 1 2 3 prefix_getitem [OF _ assms] show ?thesis by blast
qed

theorem trace_write_once_witness:
  "Trace_getitem (trace (state0 None [(''x'', PInt 1)] False)) ''x'' = Inr (PInt 1) \<and>
   Trace_setitem (trace (state0 None [(''x'', PInt 1)] False)) ''x'' (PInt 2) =
     trace (state0 None [(''x'', PInt 1)] False) \<and>
   Trace_getitem
     (trace (snd (sample (IsStr ''x'') (returns (Data (PInt 2))) [] []
                    (state0 None [(''x'', PInt 1)] False)))) ''x'' = Inr (PInt 1)"
proof -
  let ?s = "state0 None [(''x'', PInt 1)] False"
  have h: "Trace_getitem (trace ?s) ''x'' = Inr (PInt 1)"
    by (simp add: state0_def Trace_init_def Trace_getitem_def)
  note t = trace_write_once [OF h, where v' = "PInt 2" and names = "IsStr ''x''"
      and f = "returns (Data (PInt 2))" and as = "[]" and kws = "[]"]
  from t [THEN conjunct2, THEN conjunct1, THEN bspec,
      of "snd (sample (IsStr ''x'') (returns (Data (PInt 2))) [] [] ?s)"]
  have "Trace_getitem
     (trace (snd (sample (IsStr ''x'') (returns (Data (PInt 2))) [] [] ?s))) ''x'' = Inr (PInt 1)"
    by simp
  with h t [THEN conjunct1] show ?thesis by (intro conjI)
qed

text \<open>
  C4 as stated fails: \<open>update\<close>, inherited from \<open>dict\<close>, overwrites the value of a key
  that is set, and \<open>del\<close> removes the key.
\<close>

theorem inherited_update_overwrites:
  "Trace_getitem (Trace_init None [(''x'', PInt 1)] False) ''x'' = Inr (PInt 1) \<and>
   Trace_getitem (Trace_update (Trace_init None [(''x'', PInt 1)] False) [(''x'', PInt 9)]) ''x'' =
     Inr (PInt 9) \<and>
   Trace_delitem (Trace_init None [(''x'', PInt 1)] False) ''x'' = Inr (Trace_init None [] False)"
  by (simp add: Trace_getitem_def Trace_update_def Trace_delitem_def Trace_init_def
        dict_setitem_def keys_def)

section \<open>Evaluation at registration\<close>




end
